theory Spec2Isabelle
  imports Main
begin

section \<open>Data model of olcPGEX_KeyCombo.h\<close>

text \<open>
  \<open>olc::Key\<close> is an enumeration of the host engine (olcPixelGameEngine.h); the model keeps
  the enumerator's number.
\<close>

type_synonym Key = nat

text \<open>
  \<open>olc::HWButton\<close> is the host engine's button state, a struct of three booleans. The
  extension reads and writes exactly the fields \<open>bPressed\<close>, \<open>bReleased\<close> and \<open>bHeld\<close>.
\<close>

record HWButton =
  bPressed :: bool
  bReleased :: bool
  bHeld :: bool

text \<open>
  \<open>struct KeyComboDefinition\<close>. \<open>Modifiers\<close> is a \<open>std::array<olc::Key, 4>\<close> that the
  constructor fills from the front and leaves otherwise unwritten; the list holds the
  slots that have been written, so a slot at or beyond its length is one that holds no
  value. \<open>ModifierCount\<close> is an \<open>int\<close> and a public field.
\<close>

record KeyComboDefinition =
  Key :: Key
  ModifierCount :: int
  Modifiers :: "Key list"

text \<open>\<open>struct KeyCombo\<close>: one entry of the manager's vector.\<close>

record KeyCombo =
  Definition :: KeyComboDefinition
  State :: HWButton
  StateOld :: bool
  StateNew :: bool

text \<open>
  How a call can end other than by returning. \<open>ConfigurationError\<close> and
  \<open>InvalidHandleError\<close> are the two error kinds that the specification names; no path of
  the header produces them. \<open>StaticAssertFailed\<close> is the rejection of the constructor's
  \<open>static_assert\<close> by the compiler. \<open>UndefinedBehaviour\<close> marks a read that C++ leaves
  undefined: an index outside a container, or a slot that was never written.
\<close>

datatype error =
  ConfigurationError
  | InvalidHandleError
  | StaticAssertFailed
  | UndefinedBehaviour

section \<open>Operations\<close>

text \<open>
  The constructor template \<open>KeyComboDefinition(MainKey, Mods)\<close>: \<open>NumMods\<close> is the length
  of the array argument, checked by \<open>static_assert(NumMods <= 4)\<close>; \<open>std::copy\<close> then
  writes the first \<open>NumMods\<close> slots. A C++ array has at least one element, so the source
  is never called with the empty list; the model gives it what the body would compute.
\<close>

definition KeyComboDefinition_ctor :: "Key \<Rightarrow> Key list \<Rightarrow> error + KeyComboDefinition" where
  "KeyComboDefinition_ctor MainKey Mods =
     (if length Mods \<le> 4
      then Inr \<lparr>Key = MainKey, ModifierCount = int (length Mods), Modifiers = Mods\<rparr>
      else Inl StaticAssertFailed)"

text \<open>
  \<open>RegisterKeyCombo\<close>: \<open>push_back({def, {}})\<close> value-initialises the button state and the
  two raw flags, then the handle is \<open>size() - 1\<close>. The manager's only field is the vector
  \<open>KeyCombos\<close>, passed in and returned.
\<close>

definition RegisterKeyCombo :: "KeyComboDefinition \<Rightarrow> KeyCombo list \<Rightarrow> KeyCombo list \<times> nat" where
  "RegisterKeyCombo defn KeyCombos =
     (let KeyCombos = KeyCombos @
            [\<lparr>Definition = defn,
              State = \<lparr>bPressed = False, bReleased = False, bHeld = False\<rparr>,
              StateOld = False, StateNew = False\<rparr>]
      in (KeyCombos, length KeyCombos - 1))"

text \<open>
  \<open>GetKeyCombo\<close> is a \<open>const\<close> member that returns a copy of \<open>KeyCombos[i].State\<close>.
  \<open>operator[]\<close> does not check its index; a negative \<open>int\<close> converts to an index
  beyond every size.
\<close>

definition GetKeyCombo :: "int \<Rightarrow> KeyCombo list \<Rightarrow> error + HWButton" where
  "GetKeyCombo i KeyCombos =
     (if 0 \<le> i \<and> nat i < length KeyCombos
      then Inr (State (KeyCombos ! nat i))
      else Inl UndefinedBehaviour)"

text \<open>
  \<open>std::all_of\<close> over the first \<open>n\<close> slots with the predicate \<open>pge->GetKey(k).bHeld\<close>. It
  stops at the first key that is not held. The host's \<open>GetKey\<close> is a parameter.
\<close>

fun all_of_bHeld :: "(Key \<Rightarrow> HWButton) \<Rightarrow> Key list \<Rightarrow> nat \<Rightarrow> error + bool" where
  "all_of_bHeld GetKey ms 0 = Inr True"
| "all_of_bHeld GetKey [] (Suc n) = Inl UndefinedBehaviour"
| "all_of_bHeld GetKey (k # ms) (Suc n) =
     (if bHeld (GetKey k) then all_of_bHeld GetKey ms n else Inr False)"

text \<open>
  The range is \<open>[begin(), begin() + ModifierCount)\<close> of a four-element array: a negative
  count or one above 4 leaves the array.
\<close>

definition mods_held_of :: "(Key \<Rightarrow> HWButton) \<Rightarrow> KeyComboDefinition \<Rightarrow> error + bool" where
  "mods_held_of GetKey d =
     (if ModifierCount d < 0 \<or> 4 < ModifierCount d then Inl UndefinedBehaviour
      else all_of_bHeld GetKey (Modifiers d) (nat (ModifierCount d)))"

text \<open>The body of the loop of \<open>OnBeforeUserUpdate\<close>, statement by statement.\<close>

definition OnBeforeUserUpdate_body :: "(Key \<Rightarrow> HWButton) \<Rightarrow> KeyCombo \<Rightarrow> error + KeyCombo" where
  "OnBeforeUserUpdate_body GetKey kc =
     (case mods_held_of GetKey (Definition kc) of
        Inl e \<Rightarrow> Inl e
      | Inr mods_held \<Rightarrow>
         (let kc = kc\<lparr>State := (State kc)\<lparr>bPressed := False\<rparr>\<rparr>;
              kc = kc\<lparr>State := (State kc)\<lparr>bReleased := False\<rparr>\<rparr>;
              keyState = GetKey (Key (Definition kc));
              kc = kc\<lparr>StateNew :=
                     (mods_held \<and> (bPressed keyState \<or> (bHeld (State kc) \<and> bHeld keyState)))\<rparr>;
              kc = (if StateNew kc \<noteq> StateOld kc then
                      (if StateNew kc then
                         (let kc = kc\<lparr>State := (State kc)\<lparr>bPressed := \<not> bHeld (State kc)\<rparr>\<rparr>
                          in kc\<lparr>State := (State kc)\<lparr>bHeld := True\<rparr>\<rparr>)
                       else
                         (let kc = kc\<lparr>State := (State kc)\<lparr>bReleased := True\<rparr>\<rparr>
                          in kc\<lparr>State := (State kc)\<lparr>bHeld := False\<rparr>\<rparr>))
                    else kc)
          in Inr (kc\<lparr>StateOld := StateNew kc\<rparr>)))"

text \<open>\<open>OnBeforeUserUpdate\<close>: the loop \<open>for (auto& kc : KeyCombos)\<close>, updating in place.\<close>

fun OnBeforeUserUpdate :: "(Key \<Rightarrow> HWButton) \<Rightarrow> KeyCombo list \<Rightarrow> error + KeyCombo list" where
  "OnBeforeUserUpdate GetKey [] = Inr []"
| "OnBeforeUserUpdate GetKey (kc # kcs) =
     (case OnBeforeUserUpdate_body GetKey kc of
        Inl e \<Rightarrow> Inl e
      | Inr kc' \<Rightarrow>
         (case OnBeforeUserUpdate GetKey kcs of
            Inl e \<Rightarrow> Inl e
          | Inr kcs' \<Rightarrow> Inr (kc' # kcs')))"

section \<open>Well-formed definitions, reachable registries and call sequences\<close>

text \<open>
  A definition whose count stays inside the array and inside the slots that were written.
  Every definition that the constructor builds is of this kind; the evaluator's reads are
  defined for it.
\<close>

definition modifiers_in_range :: "KeyComboDefinition \<Rightarrow> bool" where
  "modifiers_in_range d \<longleftrightarrow>
     0 \<le> ModifierCount d \<and> ModifierCount d \<le> 4 \<and> nat (ModifierCount d) \<le> length (Modifiers d)"

text \<open>
  The specification's \<open>modifiersHeld\<close>, in its words: the conjunction of the host's
  held-state over the first \<open>ModifierCount\<close> modifier keys (true for no modifiers).
\<close>

definition modifiersHeld :: "(Key \<Rightarrow> HWButton) \<Rightarrow> KeyComboDefinition \<Rightarrow> bool" where
  "modifiersHeld GetKey d =
     list_all (\<lambda>k. bHeld (GetKey k)) (take (nat (ModifierCount d)) (Modifiers d))"

text \<open>
  The registries a manager can hold: it starts with an empty vector, and the two members
  that write to it are \<open>RegisterKeyCombo\<close> and \<open>OnBeforeUserUpdate\<close> (when the frame's reads
  are all defined). The host's key states are arbitrary in every frame.
\<close>

inductive reachable :: "KeyCombo list \<Rightarrow> bool" where
  start: "reachable []"
| register: "reachable kcs \<Longrightarrow> reachable (fst (RegisterKeyCombo d kcs))"
| frame: "reachable kcs \<Longrightarrow> OnBeforeUserUpdate GetKey kcs = Inr kcs' \<Longrightarrow> reachable kcs'"

text \<open>
  A sequence of calls on one manager, with the handles that its registrations return,
  in order.
\<close>

datatype call = Register KeyComboDefinition | Update "Key \<Rightarrow> HWButton"

fun session :: "call list \<Rightarrow> KeyCombo list \<Rightarrow> error + KeyCombo list \<times> nat list" where
  "session [] kcs = Inr (kcs, [])"
| "session (Register d # cs) kcs =
     (case session cs (fst (RegisterKeyCombo d kcs)) of
        Inl e \<Rightarrow> Inl e
      | Inr (kcs', hs) \<Rightarrow> Inr (kcs', snd (RegisterKeyCombo d kcs) # hs))"
| "session (Update GetKey # cs) kcs =
     (case OnBeforeUserUpdate GetKey kcs of
        Inl e \<Rightarrow> Inl e
      | Inr kcs' \<Rightarrow> session cs kcs')"

text \<open>The definitions that a call sequence registers, in order.\<close>

fun registered :: "call list \<Rightarrow> KeyComboDefinition list" where
  "registered [] = []"
| "registered (Register d # cs) = d # registered cs"
| "registered (Update GetKey # cs) = registered cs"

text \<open>
  A run of frames, one host key state per frame: the registry after each frame, in order.
\<close>

fun run_frames :: "(Key \<Rightarrow> HWButton) list \<Rightarrow> KeyCombo list \<Rightarrow> error + KeyCombo list list" where
  "run_frames [] kcs = Inr []"
| "run_frames (GetKey # gs) kcs =
     (case OnBeforeUserUpdate GetKey kcs of
        Inl e \<Rightarrow> Inl e
      | Inr kcs' \<Rightarrow>
         (case run_frames gs kcs' of
            Inl e \<Rightarrow> Inl e
          | Inr snaps \<Rightarrow> Inr (kcs' # snaps)))"

text \<open>The number of frames of a run on which the combo at handle \<open>i\<close> shows a flag.\<close>

definition pulses :: "(HWButton \<Rightarrow> bool) \<Rightarrow> nat \<Rightarrow> KeyCombo list list \<Rightarrow> nat" where
  "pulses flag i snaps = length (filter (\<lambda>kcs. flag (State (kcs ! i))) snaps)"

text \<open>
  Sample inputs: a combo of the modifier key 1 and the terminal key 2, a combo of the
  terminal key 3 with no modifier, the registry that holds the two in this order, the
  same registry with both combos newly active, and four host key states (every key newly down, every key still down, every key up, every key
  newly down but key 1, which is up).
\<close>

definition sample_combo :: KeyComboDefinition where
  "sample_combo = \<lparr>Key = 2, ModifierCount = 1, Modifiers = [1]\<rparr>"

definition sample_solo :: KeyComboDefinition where
  "sample_solo = \<lparr>Key = 3, ModifierCount = 0, Modifiers = []\<rparr>"

definition sample_registry :: "KeyCombo list" where
  "sample_registry =
     fst (RegisterKeyCombo sample_solo (fst (RegisterKeyCombo sample_combo [])))"

definition sample_after_press :: "KeyCombo list" where
  "sample_after_press =
     [\<lparr>Definition = sample_combo,
       State = \<lparr>bPressed = True, bReleased = False, bHeld = True\<rparr>,
       StateOld = True, StateNew = True\<rparr>,
      \<lparr>Definition = sample_solo,
       State = \<lparr>bPressed = True, bReleased = False, bHeld = True\<rparr>,
       StateOld = True, StateNew = True\<rparr>]"

definition keys_pressed :: "Key \<Rightarrow> HWButton" where
  "keys_pressed k = \<lparr>bPressed = True, bReleased = False, bHeld = True\<rparr>"

definition keys_held :: "Key \<Rightarrow> HWButton" where
  "keys_held k = \<lparr>bPressed = False, bReleased = False, bHeld = True\<rparr>"

definition keys_up :: "Key \<Rightarrow> HWButton" where
  "keys_up k = \<lparr>bPressed = False, bReleased = False, bHeld = False\<rparr>"

definition modifier_up :: "Key \<Rightarrow> HWButton" where
  "modifier_up k = \<lparr>bPressed = (k \<noteq> 1), bReleased = False, bHeld = (k \<noteq> 1)\<rparr>"

section \<open>The evaluator, entry by entry\<close>

lemma all_of_bHeld_take:
  "n \<le> length ms \<Longrightarrow>
   all_of_bHeld GetKey ms n = Inr (list_all (\<lambda>k. bHeld (GetKey k)) (take n ms))"
  by (induction GetKey ms n rule: all_of_bHeld.induct) auto

lemma mods_held_of_in_range:
  "modifiers_in_range d \<Longrightarrow> mods_held_of GetKey d = Inr (modifiersHeld GetKey d)"
  by (simp add: modifiers_in_range_def mods_held_of_def modifiersHeld_def all_of_bHeld_take)

lemma body_InrD:
  assumes "OnBeforeUserUpdate_body GetKey kc = Inr kc'"
  shows "\<exists>m. mods_held_of GetKey (Definition kc) = Inr m \<and>
     Definition kc' = Definition kc \<and>
     StateNew kc' = (m \<and> (bPressed (GetKey (Key (Definition kc))) \<or>
                         (bHeld (State kc) \<and> bHeld (GetKey (Key (Definition kc)))))) \<and>
     StateOld kc' = StateNew kc' \<and>
     bPressed (State kc') = (StateNew kc' \<and> \<not> StateOld kc \<and> \<not> bHeld (State kc)) \<and>
     bReleased (State kc') = (\<not> StateNew kc' \<and> StateOld kc) \<and>
     bHeld (State kc') = (if StateNew kc' \<noteq> StateOld kc then StateNew kc' else bHeld (State kc))"
proof -
  obtain m where m: "mods_held_of GetKey (Definition kc) = Inr m"
    using assms
    by (cases "mods_held_of GetKey (Definition kc)")
      (simp_all add: OnBeforeUserUpdate_body_def)
  have kc': "kc' = projr (OnBeforeUserUpdate_body GetKey kc)"
    using assms by simp
  show ?thesis
    unfolding kc' OnBeforeUserUpdate_body_def m
    by (simp add: Let_def)
qed

lemma body_total:
  "modifiers_in_range (Definition kc) \<Longrightarrow> \<exists>kc'. OnBeforeUserUpdate_body GetKey kc = Inr kc'"
  by (simp add: OnBeforeUserUpdate_body_def Let_def mods_held_of_in_range)

lemma OnBeforeUserUpdate_Inr_iff:
  "OnBeforeUserUpdate GetKey kcs = Inr kcs' \<longleftrightarrow>
   list_all2 (\<lambda>kc kc'. OnBeforeUserUpdate_body GetKey kc = Inr kc') kcs kcs'"
proof (induction kcs arbitrary: kcs')
  case Nil
  show ?case by auto
next
  case (Cons kc kcs)
  show ?case
    by (cases kcs') (auto simp: Cons.IH [symmetric] split: sum.splits)
qed

lemma OnBeforeUserUpdate_total:
  "\<forall>kc\<in>set kcs. modifiers_in_range (Definition kc) \<Longrightarrow>
   \<exists>kcs'. OnBeforeUserUpdate GetKey kcs = Inr kcs'"
proof (induction kcs)
  case Nil
  show ?case by simp
next
  case (Cons kc kcs)
  then obtain kcs' where "OnBeforeUserUpdate GetKey kcs = Inr kcs'" by auto
  moreover obtain kc' where "OnBeforeUserUpdate_body GetKey kc = Inr kc'"
    using body_total Cons.prems by fastforce
  ultimately show ?case by simp
qed

lemma OnBeforeUserUpdate_nth:
  assumes "OnBeforeUserUpdate GetKey kcs = Inr kcs'"
  shows "length kcs' = length kcs"
    and "i < length kcs \<Longrightarrow> OnBeforeUserUpdate_body GetKey (kcs ! i) = Inr (kcs' ! i)"
  using assms
  by (auto simp: OnBeforeUserUpdate_Inr_iff dest: list_all2_lengthD list_all2_nthD)

lemma body_edges:
  assumes "OnBeforeUserUpdate_body GetKey kc = Inr kc'"
    and "bHeld (State kc) = StateOld kc"
  shows "bHeld (State kc') = StateOld kc'"
    and "StateNew kc' = StateOld kc'"
    and "bPressed (State kc') \<longleftrightarrow> bHeld (State kc') \<and> \<not> bHeld (State kc)"
    and "bReleased (State kc') \<longleftrightarrow> \<not> bHeld (State kc') \<and> bHeld (State kc)"
  using body_InrD [OF assms(1)] assms(2) by auto

lemma reachable_entries:
  "reachable kcs \<Longrightarrow> kc \<in> set kcs \<Longrightarrow>
   bHeld (State kc) = StateOld kc \<and> StateNew kc = StateOld kc \<and>
   (bPressed (State kc) \<longrightarrow> bHeld (State kc)) \<and>
   (bReleased (State kc) \<longrightarrow> \<not> bHeld (State kc))"
proof (induction arbitrary: kc rule: reachable.induct)
  case start
  then show ?case by simp
next
  case (register kcs d)
  then show ?case by (auto simp: RegisterKeyCombo_def)
next
  case (frame kcs GetKey kcs')
  from frame.prems obtain i where i: "i < length kcs'" "kc = kcs' ! i"
    by (auto simp: in_set_conv_nth)
  have len: "length kcs' = length kcs"
    using frame.hyps(2) by (rule OnBeforeUserUpdate_nth(1))
  have step: "OnBeforeUserUpdate_body GetKey (kcs ! i) = Inr kc"
    using OnBeforeUserUpdate_nth(2) [OF frame.hyps(2)] i len by simp
  have old: "bHeld (State (kcs ! i)) = StateOld (kcs ! i)"
    using frame.IH [of "kcs ! i"] i len by simp
  show ?case
    using body_edges [OF step old] by simp
qed

lemma RegisterKeyCombo_eq:
  "RegisterKeyCombo d kcs =
     (kcs @ [\<lparr>Definition = d,
              State = \<lparr>bPressed = False, bReleased = False, bHeld = False\<rparr>,
              StateOld = False, StateNew = False\<rparr>],
      length kcs)"
  by (simp add: RegisterKeyCombo_def)

lemma OnBeforeUserUpdate_Definitions:
  assumes "OnBeforeUserUpdate GetKey kcs = Inr kcs'"
  shows "map Definition kcs' = map Definition kcs"
proof (rule nth_equalityI)
  show "length (map Definition kcs') = length (map Definition kcs)"
    using OnBeforeUserUpdate_nth(1) [OF assms] by simp
next
  fix i assume "i < length (map Definition kcs')"
  then have i: "i < length kcs" "i < length kcs'"
    using OnBeforeUserUpdate_nth(1) [OF assms] by simp_all
  from body_InrD [OF OnBeforeUserUpdate_nth(2) [OF assms i(1)]]
  have "Definition (kcs' ! i) = Definition (kcs ! i)" by blast
  with i show "map Definition kcs' ! i = map Definition kcs ! i" by simp
qed

lemma OnBeforeUserUpdate_in_range:
  assumes "OnBeforeUserUpdate GetKey kcs = Inr kcs'"
    and "\<forall>kc\<in>set kcs. modifiers_in_range (Definition kc)"
  shows "\<forall>kc\<in>set kcs'. modifiers_in_range (Definition kc)"
proof -
  have "\<forall>d\<in>set (map Definition kcs). modifiers_in_range d"
    using assms(2) by simp
  then have "\<forall>d\<in>set (map Definition kcs'). modifiers_in_range d"
    by (simp only: OnBeforeUserUpdate_Definitions [OF assms(1)])
  then show ?thesis by simp
qed

section \<open>Call sequences and runs of frames\<close>

lemma upt_from_Cons: "[n..<Suc (n + m)] = n # [Suc n..<Suc (n + m)]"
  by (simp add: upt_conv_Cons del: upt_Suc)

lemma session_handles:
  "session cs kcs0 = Inr (kcs, hs) \<Longrightarrow>
   hs = [length kcs0..<length kcs0 + length (registered cs)] \<and>
   map Definition kcs = map Definition kcs0 @ registered cs"
proof (induction cs kcs0 arbitrary: kcs hs rule: session.induct)
  case (1 kcs0)
  then show ?case by simp
next
  case (2 d cs kcs0)
  from "2.prems" obtain hs' where rest:
      "session cs (fst (RegisterKeyCombo d kcs0)) = Inr (kcs, hs')"
      and hs: "hs = snd (RegisterKeyCombo d kcs0) # hs'"
    by (auto split: sum.splits)
  from "2.IH" [OF rest] hs show ?case
    by (simp add: RegisterKeyCombo_eq upt_from_Cons del: upt_Suc)
next
  case (3 GetKey cs kcs0)
  from "3.prems" obtain kcs1 where run: "OnBeforeUserUpdate GetKey kcs0 = Inr kcs1"
      and rest: "session cs kcs1 = Inr (kcs, hs)"
    by (auto split: sum.splits)
  from "3.IH" [OF run rest] OnBeforeUserUpdate_Definitions [OF run]
    OnBeforeUserUpdate_nth(1) [OF run]
  show ?case by simp
qed

lemma session_registers:
  "session (map Register ds) kcs =
     Inr (kcs @ map (\<lambda>d. \<lparr>Definition = d,
                           State = \<lparr>bPressed = False, bReleased = False, bHeld = False\<rparr>,
                           StateOld = False, StateNew = False\<rparr>) ds,
          [length kcs..<length kcs + length ds])"
  by (induction ds arbitrary: kcs) (simp_all add: RegisterKeyCombo_eq upt_from_Cons del: upt_Suc)

lemma pulses_Cons:
  "pulses flag i (kcs # snaps) = (if flag (State (kcs ! i)) then 1 else 0) + pulses flag i snaps"
  by (simp add: pulses_def)

lemma run_frames_pulses:
  assumes "\<forall>kc\<in>set kcs. modifiers_in_range (Definition kc)"
    and "i < length kcs"
    and "bHeld (State (kcs ! i)) = StateOld (kcs ! i)"
  shows "\<exists>snaps. run_frames gs kcs = Inr snaps \<and> length snaps = length gs \<and>
     pulses bPressed i snaps + (if bHeld (State (kcs ! i)) then 1 else 0) =
     pulses bReleased i snaps + (if bHeld (State (last (kcs # snaps) ! i)) then 1 else 0)"
  using assms
proof (induction gs arbitrary: kcs)
  case Nil
  show ?case by (simp add: pulses_def)
next
  case (Cons GetKey gs)
  obtain kcs' where run: "OnBeforeUserUpdate GetKey kcs = Inr kcs'"
    using OnBeforeUserUpdate_total [OF Cons.prems(1)] by blast
  have len: "length kcs' = length kcs"
    using OnBeforeUserUpdate_nth(1) [OF run] .
  have step: "OnBeforeUserUpdate_body GetKey (kcs ! i) = Inr (kcs' ! i)"
    using OnBeforeUserUpdate_nth(2) [OF run Cons.prems(2)] .
  note edges = body_edges [OF step Cons.prems(3)]
  have "\<exists>snaps. run_frames gs kcs' = Inr snaps \<and> length snaps = length gs \<and>
     pulses bPressed i snaps + (if bHeld (State (kcs' ! i)) then 1 else 0) =
     pulses bReleased i snaps + (if bHeld (State (last (kcs' # snaps) ! i)) then 1 else 0)"
    using Cons.IH [OF OnBeforeUserUpdate_in_range [OF run Cons.prems(1)]] Cons.prems(2) len
      edges(1) by simp
  then obtain snaps where snaps: "run_frames gs kcs' = Inr snaps" "length snaps = length gs"
    and count: "pulses bPressed i snaps + (if bHeld (State (kcs' ! i)) then 1 else 0) =
     pulses bReleased i snaps + (if bHeld (State (last (kcs' # snaps) ! i)) then 1 else 0)"
    by blast
  have "run_frames (GetKey # gs) kcs = Inr (kcs' # snaps)"
    using run snaps(1) by simp
  moreover have "length (kcs' # snaps) = length (GetKey # gs)"
    using snaps(2) by simp
  moreover have "pulses bPressed i (kcs' # snaps) + (if bHeld (State (kcs ! i)) then 1 else 0) =
     pulses bReleased i (kcs' # snaps) +
     (if bHeld (State (last (kcs # kcs' # snaps) ! i)) then 1 else 0)"
    using count edges(3,4) by (auto simp: pulses_Cons split: if_splits)
  ultimately show ?case by blast
qed

section \<open>The sample inputs\<close>

lemma sample_registry_eq:
  "sample_registry =
     [\<lparr>Definition = sample_combo,
       State = \<lparr>bPressed = False, bReleased = False, bHeld = False\<rparr>,
       StateOld = False, StateNew = False\<rparr>,
      \<lparr>Definition = sample_solo,
       State = \<lparr>bPressed = False, bReleased = False, bHeld = False\<rparr>,
       StateOld = False, StateNew = False\<rparr>]"
  by (simp add: sample_registry_def RegisterKeyCombo_def)

lemma sample_registry_reachable: "reachable sample_registry"
  unfolding sample_registry_def
  by (rule reachable.register [OF reachable.register [OF reachable.start]])

lemma sample_in_range: "\<forall>kc\<in>set sample_registry. modifiers_in_range (Definition kc)"
  by (simp add: sample_registry_eq sample_combo_def sample_solo_def modifiers_in_range_def)

lemma sample_in_range_list:
  "list_all (\<lambda>kc. modifiers_in_range (Definition kc)) sample_registry"
  using sample_in_range by (simp add: list_all_iff)

lemma sample_first_frame:
  "OnBeforeUserUpdate keys_pressed sample_registry = Inr sample_after_press"
  by (simp add: sample_registry_eq sample_after_press_def sample_combo_def sample_solo_def
      keys_pressed_def OnBeforeUserUpdate_body_def mods_held_of_def Let_def)

lemma sample_after_press_reachable: "reachable sample_after_press"
  by (rule reachable.frame [OF sample_registry_reachable sample_first_frame])

section \<open>The claims\<close>

text \<open>
  Claim C1. One call of \<open>OnBeforeUserUpdate\<close> on a registry whose definitions keep their
  modifier count within the written slots returns a registry of the same length, and for
  every entry: the raw signal \<open>StateNew\<close> of this frame is \<open>modifiersHeld\<close> and (the terminal
  key is pressed, or the combo's held flag is set and the terminal key is held), where
  \<open>modifiersHeld\<close> is the conjunction of the held states of the first \<open>ModifierCount\<close>
  modifier keys. If the raw signal differs from the one stored in the previous frame, then
  on a rising edge \<open>bPressed\<close> is the negation of the prior held flag and \<open>bHeld\<close> is set, with
  \<open>bReleased\<close> reset; on a falling edge \<open>bReleased\<close> is set and \<open>bHeld\<close> is cleared, with
  \<open>bPressed\<close> reset. Otherwise \<open>bPressed\<close> and \<open>bReleased\<close> are reset and \<open>bHeld\<close> keeps its
  value. The raw signal is stored for the next frame and the definition is unchanged.
\<close>

theorem evaluator_raw_signal_and_edges:
  assumes "\<forall>kc\<in>set kcs. modifiers_in_range (Definition kc)"
  shows "\<exists>kcs'. OnBeforeUserUpdate GetKey kcs = Inr kcs' \<and> length kcs' = length kcs \<and>
    (\<forall>i<length kcs.
       let kc = kcs ! i; kc' = kcs' ! i;
           keyState = GetKey (Key (Definition kc));
           raw = (modifiersHeld GetKey (Definition kc) \<and>
                  (bPressed keyState \<or> (bHeld (State kc) \<and> bHeld keyState)))
       in Definition kc' = Definition kc \<and> StateNew kc' = raw \<and> StateOld kc' = raw \<and>
          (if raw \<noteq> StateOld kc
           then (if raw
                 then bPressed (State kc') = (\<not> bHeld (State kc)) \<and>
                      \<not> bReleased (State kc') \<and> bHeld (State kc')
                 else \<not> bPressed (State kc') \<and>
                      bReleased (State kc') \<and> \<not> bHeld (State kc'))
           else \<not> bPressed (State kc') \<and> \<not> bReleased (State kc') \<and>
                bHeld (State kc') = bHeld (State kc)))"
proof -
  obtain kcs' where run: "OnBeforeUserUpdate GetKey kcs = Inr kcs'"
    using OnBeforeUserUpdate_total [OF assms] by blast
  have "\<forall>i<length kcs.
       let kc = kcs ! i; kc' = kcs' ! i;
           keyState = GetKey (Key (Definition kc));
           raw = (modifiersHeld GetKey (Definition kc) \<and>
                  (bPressed keyState \<or> (bHeld (State kc) \<and> bHeld keyState)))
       in Definition kc' = Definition kc \<and> StateNew kc' = raw \<and> StateOld kc' = raw \<and>
          (if raw \<noteq> StateOld kc
           then (if raw
                 then bPressed (State kc') = (\<not> bHeld (State kc)) \<and>
                      \<not> bReleased (State kc') \<and> bHeld (State kc')
                 else \<not> bPressed (State kc') \<and>
                      bReleased (State kc') \<and> \<not> bHeld (State kc'))
           else \<not> bPressed (State kc') \<and> \<not> bReleased (State kc') \<and>
                bHeld (State kc') = bHeld (State kc))"
  proof (intro allI impI)
    fix i assume i: "i < length kcs"
    have step: "OnBeforeUserUpdate_body GetKey (kcs ! i) = Inr (kcs' ! i)"
      using OnBeforeUserUpdate_nth(2) [OF run i] .
    have "modifiers_in_range (Definition (kcs ! i))"
      using assms i by simp
    then have m: "mods_held_of GetKey (Definition (kcs ! i)) =
                  Inr (modifiersHeld GetKey (Definition (kcs ! i)))"
      by (rule mods_held_of_in_range)
    show "let kc = kcs ! i; kc' = kcs' ! i;
           keyState = GetKey (Key (Definition kc));
           raw = (modifiersHeld GetKey (Definition kc) \<and>
                  (bPressed keyState \<or> (bHeld (State kc) \<and> bHeld keyState)))
       in Definition kc' = Definition kc \<and> StateNew kc' = raw \<and> StateOld kc' = raw \<and>
          (if raw \<noteq> StateOld kc
           then (if raw
                 then bPressed (State kc') = (\<not> bHeld (State kc)) \<and>
                      \<not> bReleased (State kc') \<and> bHeld (State kc')
                 else \<not> bPressed (State kc') \<and>
                      bReleased (State kc') \<and> \<not> bHeld (State kc'))
           else \<not> bPressed (State kc') \<and> \<not> bReleased (State kc') \<and>
                bHeld (State kc') = bHeld (State kc))"
      using body_InrD [OF step] m unfolding Let_def by auto
  qed
  with run OnBeforeUserUpdate_nth(1) [OF run] show ?thesis by blast
qed

theorem evaluator_raw_signal_and_edges_witness:
  "list_all (\<lambda>kc. modifiers_in_range (Definition kc)) sample_registry \<and>
   (\<exists>kcs'. OnBeforeUserUpdate keys_pressed sample_registry = Inr kcs' \<and>
      length kcs' = length sample_registry \<and>
      StateNew (kcs' ! 0) \<and> StateOld (kcs' ! 0) \<and> bPressed (State (kcs' ! 0)) \<and>
      \<not> bReleased (State (kcs' ! 0)) \<and> bHeld (State (kcs' ! 0)))"
proof -
  obtain kcs' where run: "OnBeforeUserUpdate keys_pressed sample_registry = Inr kcs'"
    and len: "length kcs' = length sample_registry"
    and entries: "\<forall>i<length sample_registry.
       let kc = sample_registry ! i; kc' = kcs' ! i;
           keyState = keys_pressed (Key (Definition kc));
           raw = (modifiersHeld keys_pressed (Definition kc) \<and>
                  (bPressed keyState \<or> (bHeld (State kc) \<and> bHeld keyState)))
       in Definition kc' = Definition kc \<and> StateNew kc' = raw \<and> StateOld kc' = raw \<and>
          (if raw \<noteq> StateOld kc
           then (if raw
                 then bPressed (State kc') = (\<not> bHeld (State kc)) \<and>
                      \<not> bReleased (State kc') \<and> bHeld (State kc')
                 else \<not> bPressed (State kc') \<and>
                      bReleased (State kc') \<and> \<not> bHeld (State kc'))
           else \<not> bPressed (State kc') \<and> \<not> bReleased (State kc') \<and>
                bHeld (State kc') = bHeld (State kc))"
    using evaluator_raw_signal_and_edges [OF sample_in_range, of keys_pressed] by blast
  have "(0::nat) < length sample_registry"
    by (simp add: sample_registry_eq)
  with entries have
    "StateNew (kcs' ! 0) \<and> StateOld (kcs' ! 0) \<and> bPressed (State (kcs' ! 0)) \<and>
      \<not> bReleased (State (kcs' ! 0)) \<and> bHeld (State (kcs' ! 0))"
    by (auto simp: sample_registry_eq sample_combo_def keys_pressed_def modifiersHeld_def
        Let_def)
  with run len sample_in_range_list show ?thesis by blast
qed

text \<open>
  Claim C2. In every reachable registry and for every entry, \<open>bPressed\<close> and \<open>bReleased\<close> are
  not both set, and \<open>bHeld\<close> is set whenever \<open>bPressed\<close> is. In every frame that follows a
  reachable registry, \<open>bPressed\<close> is set exactly when the combo is held now and was not
  held in the frame before, and \<open>bReleased\<close> exactly when it is not held now and was held in
  the frame before: each run of held frames has \<open>bPressed\<close> on its first frame only, and
  \<open>bReleased\<close> on the one frame that follows it.
\<close>

theorem pulse_invariant:
  assumes "reachable kcs"
  shows "(\<forall>kc\<in>set kcs.
            \<not> (bPressed (State kc) \<and> bReleased (State kc)) \<and>
            (bPressed (State kc) \<longrightarrow> bHeld (State kc))) \<and>
         (\<forall>GetKey kcs'. OnBeforeUserUpdate GetKey kcs = Inr kcs' \<longrightarrow>
            (\<forall>i<length kcs.
               (bPressed (State (kcs' ! i)) \<longleftrightarrow>
                  bHeld (State (kcs' ! i)) \<and> \<not> bHeld (State (kcs ! i))) \<and>
               (bReleased (State (kcs' ! i)) \<longleftrightarrow>
                  \<not> bHeld (State (kcs' ! i)) \<and> bHeld (State (kcs ! i)))))"
proof -
  have entries: "\<forall>kc\<in>set kcs.
            \<not> (bPressed (State kc) \<and> bReleased (State kc)) \<and>
            (bPressed (State kc) \<longrightarrow> bHeld (State kc))"
    using reachable_entries [OF assms] by blast
  have frames: "\<forall>GetKey kcs'. OnBeforeUserUpdate GetKey kcs = Inr kcs' \<longrightarrow>
            (\<forall>i<length kcs.
               (bPressed (State (kcs' ! i)) \<longleftrightarrow>
                  bHeld (State (kcs' ! i)) \<and> \<not> bHeld (State (kcs ! i))) \<and>
               (bReleased (State (kcs' ! i)) \<longleftrightarrow>
                  \<not> bHeld (State (kcs' ! i)) \<and> bHeld (State (kcs ! i))))"
  proof (intro allI impI)
    fix GetKey kcs' i
    assume run: "OnBeforeUserUpdate GetKey kcs = Inr kcs'" and i: "i < length kcs"
    have step: "OnBeforeUserUpdate_body GetKey (kcs ! i) = Inr (kcs' ! i)"
      using OnBeforeUserUpdate_nth(2) [OF run i] .
    have old: "bHeld (State (kcs ! i)) = StateOld (kcs ! i)"
      using reachable_entries [OF assms, of "kcs ! i"] i by simp
    show "(bPressed (State (kcs' ! i)) \<longleftrightarrow>
            bHeld (State (kcs' ! i)) \<and> \<not> bHeld (State (kcs ! i))) \<and>
          (bReleased (State (kcs' ! i)) \<longleftrightarrow>
            \<not> bHeld (State (kcs' ! i)) \<and> bHeld (State (kcs ! i)))"
      using body_edges(3,4) [OF step old] by simp
  qed
  from entries frames show ?thesis by (rule conjI)
qed

theorem pulse_invariant_witness:
  "reachable sample_registry \<and> reachable sample_after_press \<and>
   OnBeforeUserUpdate keys_pressed sample_registry = Inr sample_after_press \<and>
   (0::nat) < length sample_registry \<and>
   sample_after_press ! 0 \<in> set sample_after_press \<and>
   bPressed (State (sample_after_press ! 0)) \<and>
   bHeld (State (sample_after_press ! 0)) \<and>
   \<not> (bPressed (State (sample_after_press ! 0)) \<and> bReleased (State (sample_after_press ! 0))) \<and>
   (bPressed (State (sample_after_press ! 0)) \<longleftrightarrow>
      bHeld (State (sample_after_press ! 0)) \<and> \<not> bHeld (State (sample_registry ! 0))) \<and>
   (bReleased (State (sample_after_press ! 0)) \<longleftrightarrow>
      \<not> bHeld (State (sample_after_press ! 0)) \<and> bHeld (State (sample_registry ! 0)))"
proof -
  have pos: "(0::nat) < length sample_registry"
    by (simp add: sample_registry_eq)
  have mem: "sample_after_press ! 0 \<in> set sample_after_press"
    and pressed: "bPressed (State (sample_after_press ! 0))"
    by (simp_all add: sample_after_press_def)
  from pulse_invariant [OF sample_after_press_reachable] mem pressed
  have entry: "bHeld (State (sample_after_press ! 0)) \<and>
      \<not> (bPressed (State (sample_after_press ! 0)) \<and> bReleased (State (sample_after_press ! 0)))"
    by blast
  from pulse_invariant [OF sample_registry_reachable] sample_first_frame pos have
    "(bPressed (State (sample_after_press ! 0)) \<longleftrightarrow>
        bHeld (State (sample_after_press ! 0)) \<and> \<not> bHeld (State (sample_registry ! 0))) \<and>
     (bReleased (State (sample_after_press ! 0)) \<longleftrightarrow>
        \<not> bHeld (State (sample_after_press ! 0)) \<and> bHeld (State (sample_registry ! 0)))"
    by blast
  with sample_registry_reachable sample_after_press_reachable sample_first_frame pos mem
    pressed entry
  show ?thesis by blast
qed

text \<open>
  Claim C3, as the header has it. \<open>RegisterKeyCombo\<close> checks nothing and cannot fail: for
  every definition, whatever its \<open>ModifierCount\<close>, it appends one entry with all flags
  false and returns the former size of the registry as the handle. The bound of 4 is
  enforced where a definition is built: the constructor is rejected by its
  \<open>static_assert\<close> for more than 4 modifiers, and a definition that it does build has the
  length of the modifier array as its count, at most 4. The theorem after the witness
  shows a definition whose count is 5 being registered and given handle 0.
\<close>

theorem registration_appends_without_validation:
  "RegisterKeyCombo defn kcs =
     (kcs @ [\<lparr>Definition = defn,
              State = \<lparr>bPressed = False, bReleased = False, bHeld = False\<rparr>,
              StateOld = False, StateNew = False\<rparr>],
      length kcs) \<and>
   (4 < length Mods \<longrightarrow> KeyComboDefinition_ctor MainKey Mods = Inl StaticAssertFailed) \<and>
   (\<forall>d. KeyComboDefinition_ctor MainKey Mods = Inr d \<longrightarrow>
        ModifierCount d = int (length Mods) \<and> ModifierCount d \<le> 4 \<and> modifiers_in_range d)"
  by (auto simp: RegisterKeyCombo_def KeyComboDefinition_ctor_def modifiers_in_range_def)

theorem registration_appends_without_validation_witness:
  "4 < length [1, 1, 1, 1, 1 :: Key] \<and>
   KeyComboDefinition_ctor 2 [1, 1, 1, 1, 1] = Inl StaticAssertFailed \<and>
   KeyComboDefinition_ctor 2 [1] = Inr sample_combo \<and>
   ModifierCount sample_combo = int (length [1 :: Key]) \<and>
   ModifierCount sample_combo \<le> 4 \<and> modifiers_in_range sample_combo"
proof -
  have built: "KeyComboDefinition_ctor 2 [1] = Inr sample_combo"
    by (simp add: KeyComboDefinition_ctor_def sample_combo_def)
  have five: "4 < length [1, 1, 1, 1, 1 :: Key]" by simp
  from registration_appends_without_validation [of sample_combo "[]" "[1, 1, 1, 1, 1]" 2] five
  have "KeyComboDefinition_ctor 2 [1, 1, 1, 1, 1] = Inl StaticAssertFailed" by blast
  moreover from registration_appends_without_validation [of sample_combo "[]" "[1]" 2] built
  have "ModifierCount sample_combo = int (length [1 :: Key]) \<and>
        ModifierCount sample_combo \<le> 4 \<and> modifiers_in_range sample_combo" by blast
  ultimately show ?thesis using built five by blast
qed

theorem registration_accepts_five_modifiers:
  "4 < ModifierCount \<lparr>Key = 2, ModifierCount = 5, Modifiers = [1, 1, 1, 1]\<rparr> \<and>
   RegisterKeyCombo \<lparr>Key = 2, ModifierCount = 5, Modifiers = [1, 1, 1, 1]\<rparr> [] =
     ([\<lparr>Definition = \<lparr>Key = 2, ModifierCount = 5, Modifiers = [1, 1, 1, 1]\<rparr>,
        State = \<lparr>bPressed = False, bReleased = False, bHeld = False\<rparr>,
        StateOld = False, StateNew = False\<rparr>], 0)"
  by (simp add: RegisterKeyCombo_def)

text \<open>
  Claim C4, as the header has it. For a handle that is out of range (negative, or at least
  the size of the registry, the size itself included), \<open>GetKeyCombo\<close> does not check: the
  read \<open>KeyCombos[i]\<close> is outside the vector and undefined, and no \<open>InvalidHandleError\<close> is
  produced, as the theorem after the witness shows for the handle equal to the size.
\<close>

theorem out_of_range_handle_is_unchecked:
  "i < 0 \<or> int (length kcs) \<le> i \<Longrightarrow> GetKeyCombo i kcs = Inl UndefinedBehaviour"
  by (auto simp: GetKeyCombo_def)

theorem out_of_range_handle_is_unchecked_witness:
  "int (length sample_registry) \<le> 2 \<and>
   GetKeyCombo 2 sample_registry = Inl UndefinedBehaviour"
proof -
  have h: "int (length sample_registry) \<le> 2"
    by (simp add: sample_registry_eq)
  from h out_of_range_handle_is_unchecked [of 2 sample_registry] show ?thesis by blast
qed

theorem handle_equal_to_size_is_undefined:
  "GetKeyCombo (int (length sample_registry)) sample_registry = Inl UndefinedBehaviour \<and>
   GetKeyCombo (int (length sample_registry)) sample_registry \<noteq> Inl InvalidHandleError"
  by (simp add: GetKeyCombo_def)

text \<open>
  Claim C5. After any sequence of calls on a manager that starts empty, the handles that
  the registrations returned are \<open>0, 1, 2, \<dots>\<close> in order, the entry at position \<open>n\<close> still
  carries the \<open>n\<close>-th registered definition, and one more registration appends an entry with
  all flags false, leaves the entries before it in place and returns the number of
  definitions registered so far.
\<close>

theorem handles_are_registration_positions:
  assumes "session cs [] = Inr (kcs, hs)"
  shows "hs = [0..<length (registered cs)] \<and>
         map Definition kcs = registered cs \<and>
         RegisterKeyCombo d kcs =
           (kcs @ [\<lparr>Definition = d,
                    State = \<lparr>bPressed = False, bReleased = False, bHeld = False\<rparr>,
                    StateOld = False, StateNew = False\<rparr>],
            length (registered cs))"
proof -
  from session_handles [OF assms]
  have hs: "hs = [0..<length (registered cs)]"
    and defs: "map Definition kcs = registered cs"
    by simp_all
  from defs have "length kcs = length (registered cs)"
    by (metis length_map)
  with hs defs show ?thesis
    by (simp add: RegisterKeyCombo_eq)
qed

theorem handles_are_registration_positions_witness:
  "session [Register sample_combo, Update keys_pressed, Register sample_solo] [] =
     Inr ([sample_after_press ! 0, sample_registry ! 1], [0, 1]) \<and>
   [0, 1] = [0..<length (registered
               [Register sample_combo, Update keys_pressed, Register sample_solo])] \<and>
   map Definition [sample_after_press ! 0, sample_registry ! 1] =
     registered [Register sample_combo, Update keys_pressed, Register sample_solo]"
proof -
  have run: "session [Register sample_combo, Update keys_pressed, Register sample_solo] [] =
     Inr ([sample_after_press ! 0, sample_registry ! 1], [0, 1])"
    by (simp add: RegisterKeyCombo_eq sample_registry_eq sample_after_press_def
        sample_combo_def keys_pressed_def OnBeforeUserUpdate_body_def mods_held_of_def Let_def)
  from handles_are_registration_positions [OF run] run show ?thesis by blast
qed

text \<open>
  Claim C6. For a combo with \<open>ModifierCount = 0\<close> in a reachable registry, \<open>modifiersHeld\<close>
  holds whatever the keys do, and one frame later: a combo that was not held is held exactly
  if the terminal key is pressed in this frame; a pressed terminal key always gives a held
  combo; and a held combo stays held while the terminal key is held.
\<close>

theorem no_modifiers_follow_terminal_key:
  assumes "reachable kcs"
    and "\<forall>kc\<in>set kcs. modifiers_in_range (Definition kc)"
    and "i < length kcs"
    and "ModifierCount (Definition (kcs ! i)) = 0"
  shows "modifiersHeld GetKey (Definition (kcs ! i)) \<and>
    (\<exists>kcs'. OnBeforeUserUpdate GetKey kcs = Inr kcs' \<and>
       (\<not> bHeld (State (kcs ! i)) \<longrightarrow>
          (bHeld (State (kcs' ! i)) \<longleftrightarrow> bPressed (GetKey (Key (Definition (kcs ! i)))))) \<and>
       (bPressed (GetKey (Key (Definition (kcs ! i)))) \<longrightarrow> bHeld (State (kcs' ! i))) \<and>
       (bHeld (State (kcs ! i)) \<and> bHeld (GetKey (Key (Definition (kcs ! i)))) \<longrightarrow>
          bHeld (State (kcs' ! i))))"
proof -
  have mh: "modifiersHeld GetKey (Definition (kcs ! i))"
    using assms(4) by (simp add: modifiersHeld_def)
  obtain kcs' where run: "OnBeforeUserUpdate GetKey kcs = Inr kcs'"
    using OnBeforeUserUpdate_total [OF assms(2)] by blast
  have step: "OnBeforeUserUpdate_body GetKey (kcs ! i) = Inr (kcs' ! i)"
    using OnBeforeUserUpdate_nth(2) [OF run assms(3)] .
  have m: "mods_held_of GetKey (Definition (kcs ! i)) = Inr True"
    using mods_held_of_in_range [of "Definition (kcs ! i)" GetKey] assms(2,3) mh by simp
  have old: "bHeld (State (kcs ! i)) = StateOld (kcs ! i)"
    using reachable_entries [OF assms(1), of "kcs ! i"] assms(3) by simp
  have "(\<not> bHeld (State (kcs ! i)) \<longrightarrow>
          (bHeld (State (kcs' ! i)) \<longleftrightarrow> bPressed (GetKey (Key (Definition (kcs ! i)))))) \<and>
       (bPressed (GetKey (Key (Definition (kcs ! i)))) \<longrightarrow> bHeld (State (kcs' ! i))) \<and>
       (bHeld (State (kcs ! i)) \<and> bHeld (GetKey (Key (Definition (kcs ! i)))) \<longrightarrow>
          bHeld (State (kcs' ! i)))"
    using body_InrD [OF step] m old by auto
  with mh run show ?thesis by blast
qed

theorem no_modifiers_follow_terminal_key_witness:
  "reachable sample_registry \<and>
   list_all (\<lambda>kc. modifiers_in_range (Definition kc)) sample_registry \<and>
   (1::nat) < length sample_registry \<and>
   ModifierCount (Definition (sample_registry ! 1)) = 0 \<and>
   \<not> bHeld (State (sample_registry ! 1)) \<and>
   bPressed (keys_pressed (Key (Definition (sample_registry ! 1)))) \<and>
   (\<exists>kcs'. OnBeforeUserUpdate keys_pressed sample_registry = Inr kcs' \<and>
      bHeld (State (kcs' ! 1)))"
proof -
  have i: "(1::nat) < length sample_registry"
    and none: "ModifierCount (Definition (sample_registry ! 1)) = 0"
    and idle: "\<not> bHeld (State (sample_registry ! 1))"
    and down: "bPressed (keys_pressed (Key (Definition (sample_registry ! 1))))"
    by (simp_all add: sample_registry_eq sample_solo_def keys_pressed_def)
  from no_modifiers_follow_terminal_key
    [OF sample_registry_reachable sample_in_range i none, of keys_pressed] down
  have "\<exists>kcs'. OnBeforeUserUpdate keys_pressed sample_registry = Inr kcs' \<and>
      bHeld (State (kcs' ! 1))"
    by blast
  with sample_registry_reachable sample_in_range_list i none idle down show ?thesis by blast
qed

text \<open>
  Claim C7. For a combo of a reachable registry whose raw signal of the previous frame is
  false, a frame in which one of its first \<open>ModifierCount\<close> modifier keys is not held leaves
  both \<open>bPressed\<close> and \<open>bHeld\<close> false, whatever the terminal key does.
\<close>

theorem no_activation_without_modifiers:
  assumes "reachable kcs"
    and "\<forall>kc\<in>set kcs. modifiers_in_range (Definition kc)"
    and "i < length kcs"
    and "\<not> StateOld (kcs ! i)"
    and "\<exists>k\<in>set (take (nat (ModifierCount (Definition (kcs ! i))))
                      (Modifiers (Definition (kcs ! i)))). \<not> bHeld (GetKey k)"
  shows "\<exists>kcs'. OnBeforeUserUpdate GetKey kcs = Inr kcs' \<and>
           \<not> bPressed (State (kcs' ! i)) \<and> \<not> bHeld (State (kcs' ! i))"
proof -
  have mh: "\<not> modifiersHeld GetKey (Definition (kcs ! i))"
    using assms(5) by (auto simp: modifiersHeld_def list_all_iff)
  obtain kcs' where run: "OnBeforeUserUpdate GetKey kcs = Inr kcs'"
    using OnBeforeUserUpdate_total [OF assms(2)] by blast
  have step: "OnBeforeUserUpdate_body GetKey (kcs ! i) = Inr (kcs' ! i)"
    using OnBeforeUserUpdate_nth(2) [OF run assms(3)] .
  have m: "mods_held_of GetKey (Definition (kcs ! i)) = Inr False"
    using mods_held_of_in_range [of "Definition (kcs ! i)" GetKey] assms(2,3) mh by simp
  have old: "bHeld (State (kcs ! i)) = StateOld (kcs ! i)"
    using reachable_entries [OF assms(1), of "kcs ! i"] assms(3) by simp
  have "\<not> bPressed (State (kcs' ! i)) \<and> \<not> bHeld (State (kcs' ! i))"
    using body_InrD [OF step] m old assms(4) by auto
  with run show ?thesis by blast
qed

theorem no_activation_without_modifiers_witness:
  "reachable sample_registry \<and>
   list_all (\<lambda>kc. modifiers_in_range (Definition kc)) sample_registry \<and>
   (0::nat) < length sample_registry \<and>
   \<not> StateOld (sample_registry ! 0) \<and>
   (\<exists>k\<in>set (take (nat (ModifierCount (Definition (sample_registry ! 0))))
                   (Modifiers (Definition (sample_registry ! 0)))). \<not> bHeld (modifier_up k)) \<and>
   bPressed (modifier_up (Key (Definition (sample_registry ! 0)))) \<and>
   (\<exists>kcs'. OnBeforeUserUpdate modifier_up sample_registry = Inr kcs' \<and>
      \<not> bPressed (State (kcs' ! 0)) \<and> \<not> bHeld (State (kcs' ! 0)))"
proof -
  have i: "(0::nat) < length sample_registry"
    and idle: "\<not> StateOld (sample_registry ! 0)"
    and up: "\<exists>k\<in>set (take (nat (ModifierCount (Definition (sample_registry ! 0))))
                   (Modifiers (Definition (sample_registry ! 0)))). \<not> bHeld (modifier_up k)"
    and down: "bPressed (modifier_up (Key (Definition (sample_registry ! 0))))"
    by (simp_all add: sample_registry_eq sample_combo_def modifier_up_def)
  from no_activation_without_modifiers
    [OF sample_registry_reachable sample_in_range i idle up]
    sample_registry_reachable sample_in_range_list i idle up down
  show ?thesis by blast
qed

text \<open>
  Claim C8. Over any run of frames that starts with the combo at handle \<open>i\<close> inactive (as it
  is after registration), every frame returns, and the number of frames with \<open>bPressed\<close> set
  equals the number of frames with \<open>bReleased\<close> set if the combo is not held after the last
  frame, and is larger by one if it is held then.
\<close>

theorem pressed_and_released_pulses_balance:
  assumes "\<forall>kc\<in>set kcs. modifiers_in_range (Definition kc)"
    and "i < length kcs"
    and "\<not> bHeld (State (kcs ! i))"
    and "\<not> StateOld (kcs ! i)"
  shows "\<exists>snaps. run_frames gs kcs = Inr snaps \<and> length snaps = length gs \<and>
     pulses bPressed i snaps =
     pulses bReleased i snaps + (if bHeld (State (last (kcs # snaps) ! i)) then 1 else 0)"
  using run_frames_pulses [of kcs i gs] assms by simp

theorem pressed_and_released_pulses_balance_witness:
  "list_all (\<lambda>kc. modifiers_in_range (Definition kc)) sample_registry \<and>
   (0::nat) < length sample_registry \<and>
   \<not> bHeld (State (sample_registry ! 0)) \<and>
   \<not> StateOld (sample_registry ! 0) \<and>
   (\<exists>snaps. run_frames [keys_pressed, keys_held, keys_up, keys_pressed] sample_registry =
        Inr snaps \<and>
      length snaps = length [keys_pressed, keys_held, keys_up, keys_pressed] \<and>
      pulses bPressed 0 snaps =
      pulses bReleased 0 snaps +
        (if bHeld (State (last (sample_registry # snaps) ! 0)) then 1 else 0))"
proof -
  have i: "(0::nat) < length sample_registry"
    and idle: "\<not> bHeld (State (sample_registry ! 0))"
    and old: "\<not> StateOld (sample_registry ! 0)"
    by (simp_all add: sample_registry_eq)
  from pressed_and_released_pulses_balance [OF sample_in_range i idle old]
    sample_in_range_list i idle old
  show ?thesis by blast
qed

text \<open>
  Claim C9. \<open>GetKeyCombo\<close> is a \<open>const\<close> member: it takes the registry and gives back no
  registry. For a valid handle it returns the stored button state of that entry, so calls
  repeated on the same registry agree; and whatever registrations are made before the next
  frame, the value read at that handle stays the same.
\<close>

theorem GetKeyCombo_reads_only:
  assumes "0 \<le> i" and "nat i < length kcs"
  shows "GetKeyCombo i kcs = Inr (State (kcs ! nat i)) \<and>
         (\<exists>kcs' hs. session (map Register ds) kcs = Inr (kcs', hs) \<and>
            GetKeyCombo i kcs' = GetKeyCombo i kcs)"
proof -
  have "GetKeyCombo i kcs = Inr (State (kcs ! nat i))"
    using assms by (simp add: GetKeyCombo_def)
  moreover have "GetKeyCombo i
      (kcs @ map (\<lambda>d. \<lparr>Definition = d,
                         State = \<lparr>bPressed = False, bReleased = False, bHeld = False\<rparr>,
                         StateOld = False, StateNew = False\<rparr>) ds) = GetKeyCombo i kcs"
    using assms by (simp add: GetKeyCombo_def nth_append)
  ultimately show ?thesis
    using session_registers [of ds kcs] by blast
qed

theorem GetKeyCombo_reads_only_witness:
  "(0::int) \<le> 0 \<and> nat 0 < length sample_after_press \<and>
   GetKeyCombo 0 sample_after_press =
     Inr \<lparr>bPressed = True, bReleased = False, bHeld = True\<rparr> \<and>
   (\<exists>kcs' hs. session (map Register [sample_solo, sample_combo]) sample_after_press =
        Inr (kcs', hs) \<and>
      GetKeyCombo 0 kcs' = GetKeyCombo 0 sample_after_press)"
proof -
  have h: "(0::int) \<le> 0" "nat 0 < length sample_after_press"
    by (simp_all add: sample_after_press_def)
  have "State (sample_after_press ! nat 0) =
          \<lparr>bPressed = True, bReleased = False, bHeld = True\<rparr>"
    by (simp add: sample_after_press_def)
  with GetKeyCombo_reads_only [OF h, of "[sample_solo, sample_combo]"] h
  show ?thesis by simp
qed

text \<open>
  Claim C10. In every reachable registry (after a registration as after a frame), every
  entry has \<open>bHeld\<close> equal to \<open>StateOld\<close> and to \<open>StateNew\<close>. And a combo that is not held can
  only be held after the next frame if the terminal key is pressed in that frame: the held
  signal of the key alone does not activate it.
\<close>

theorem held_equals_raw_signal:
  assumes "reachable kcs"
  shows "(\<forall>kc\<in>set kcs. bHeld (State kc) = StateOld kc \<and> StateOld kc = StateNew kc) \<and>
         (\<forall>GetKey kcs'. OnBeforeUserUpdate GetKey kcs = Inr kcs' \<longrightarrow>
            (\<forall>i<length kcs.
               \<not> bHeld (State (kcs ! i)) \<and> bHeld (State (kcs' ! i)) \<longrightarrow>
               bPressed (GetKey (Key (Definition (kcs ! i))))))"
proof -
  have entries: "\<forall>kc\<in>set kcs. bHeld (State kc) = StateOld kc \<and> StateOld kc = StateNew kc"
    using reachable_entries [OF assms] by simp
  have frames: "\<forall>GetKey kcs'. OnBeforeUserUpdate GetKey kcs = Inr kcs' \<longrightarrow>
            (\<forall>i<length kcs.
               \<not> bHeld (State (kcs ! i)) \<and> bHeld (State (kcs' ! i)) \<longrightarrow>
               bPressed (GetKey (Key (Definition (kcs ! i)))))"
  proof (intro allI impI)
    fix GetKey kcs' i
    assume run: "OnBeforeUserUpdate GetKey kcs = Inr kcs'" and i: "i < length kcs"
      and rise: "\<not> bHeld (State (kcs ! i)) \<and> bHeld (State (kcs' ! i))"
    have step: "OnBeforeUserUpdate_body GetKey (kcs ! i) = Inr (kcs' ! i)"
      using OnBeforeUserUpdate_nth(2) [OF run i] .
    show "bPressed (GetKey (Key (Definition (kcs ! i))))"
      using body_InrD [OF step] rise by (auto split: if_splits)
  qed
  from entries frames show ?thesis by (rule conjI)
qed

theorem held_equals_raw_signal_witness:
  "reachable sample_registry \<and> reachable sample_after_press \<and>
   OnBeforeUserUpdate keys_pressed sample_registry = Inr sample_after_press \<and>
   (0::nat) < length sample_registry \<and>
   \<not> bHeld (State (sample_registry ! 0)) \<and> bHeld (State (sample_after_press ! 0)) \<and>
   bPressed (keys_pressed (Key (Definition (sample_registry ! 0)))) \<and>
   sample_after_press ! 0 \<in> set sample_after_press \<and>
   bHeld (State (sample_after_press ! 0)) = StateOld (sample_after_press ! 0) \<and>
   StateOld (sample_after_press ! 0) = StateNew (sample_after_press ! 0)"
proof -
  have i: "(0::nat) < length sample_registry"
    and rise: "\<not> bHeld (State (sample_registry ! 0)) \<and> bHeld (State (sample_after_press ! 0))"
    and mem: "sample_after_press ! 0 \<in> set sample_after_press"
    by (simp_all add: sample_registry_eq sample_after_press_def)
  from held_equals_raw_signal [OF sample_after_press_reachable] mem
  have entry: "bHeld (State (sample_after_press ! 0)) = StateOld (sample_after_press ! 0) \<and>
      StateOld (sample_after_press ! 0) = StateNew (sample_after_press ! 0)"
    by blast
  from held_equals_raw_signal [OF sample_registry_reachable] sample_first_frame i rise
  have "bPressed (keys_pressed (Key (Definition (sample_registry ! 0))))"
    by blast
  with sample_registry_reachable sample_after_press_reachable sample_first_frame i rise mem
    entry
  show ?thesis by blast
qed

end
